theory Spec2Isabelle
  imports Main "HOL-Library.Char_ord" "HOL-Library.List_Lexorder"
begin

section \<open>The page-configuration store of goamis\<close>

text \<open>
  The program (\<^verbatim>\<open>main.go\<close>) keeps named page configurations in one bucket (\<^verbatim>\<open>"page"\<close>)
  of an embedded bolt database, fills that bucket at start from the embedded directory
  \<^verbatim>\<open>static\<close>, and serves four handlers: \<^verbatim>\<open>listConfig\<close>, \<^verbatim>\<open>getConfig\<close>,
  \<^verbatim>\<open>deleteConfig\<close> and \<^verbatim>\<open>saveConfig\<close>.

  Go strings and byte slices are both sequences of bytes; they are modelled as
  \<^typ>\<open>string\<close> (a list of 8-bit characters), ordered bytewise and lexicographically as
  \<^verbatim>\<open>bytes.Compare\<close> orders them.
\<close>

type_synonym bytes = string

subsection \<open>Library functions on paths and strings\<close>

text \<open>
  \<^verbatim>\<open>filepath.Split\<close> (Unix): scan from the end down to the last separator; the directory
  part keeps the separator.
\<close>

fun split_loop :: "string \<Rightarrow> string \<Rightarrow> string \<times> string" where
  "split_loop [] file = ([], file)"
| "split_loop (c # cs) file =
     (if c = CHR ''/'' then (rev (c # cs), file) else split_loop cs (c # file))"

definition Split :: "string \<Rightarrow> string \<times> string" where
  "Split path = split_loop (rev path) []"

text \<open>
  \<^verbatim>\<open>filepath.Ext\<close>: scan from the end, stop at a separator; at the first dot met, the
  extension is the rest of the path from that dot on. No dot: the empty string.
\<close>

fun ext_loop :: "string \<Rightarrow> string \<Rightarrow> string" where
  "ext_loop [] rest = []"
| "ext_loop (c # cs) rest =
     (if c = CHR ''/'' then []
      else if c = CHR ''.'' then c # rest
      else ext_loop cs (c # rest))"

definition Ext :: "string \<Rightarrow> string" where
  "Ext path = ext_loop (rev path) []"

text \<open>\<^verbatim>\<open>strings.HasSuffix\<close> and \<^verbatim>\<open>strings.TrimSuffix\<close>.\<close>

definition HasSuffix :: "string \<Rightarrow> string \<Rightarrow> bool" where
  "HasSuffix s suf \<longleftrightarrow> length suf \<le> length s \<and> drop (length s - length suf) s = suf"

definition TrimSuffix :: "string \<Rightarrow> string \<Rightarrow> string" where
  "TrimSuffix s suf = (if HasSuffix s suf then take (length s - length suf) s else s)"

subsection \<open>The bolt bucket\<close>

text \<open>
  A bucket is an ordered key-value store: its entries are held in ascending byte order of
  their keys, one entry per key. The model is the sequence of entries in that order.
  The database file either has the bucket \<^verbatim>\<open>"page"\<close> or not (\<open>None\<close>);
  \<^verbatim>\<open>tx.Bucket\<close> answers \<^verbatim>\<open>nil\<close> in the second case and every method called on it
  panics. Failures of the disk under a transaction are outside the model: a transaction
  commits what its function did when the function returns no error, and nothing otherwise.
\<close>

type_synonym bucket = "(bytes \<times> bytes) list"

type_synonym db = "bucket option"

datatype error =
    ErrKeyRequired
  | ErrKeyTooLarge
  | ErrValueTooLarge
  | DecodeError
  | ValidationErrors
  | OpenError

definition MaxKeySize :: nat where
  "MaxKeySize = 32768"

definition MaxValueSize :: nat where
  "MaxValueSize = 2 ^ 31 - 2"

text \<open>\<^verbatim>\<open>Bucket.Get\<close>: the value stored under the key, \<^verbatim>\<open>nil\<close> (\<open>None\<close>) when there is none.\<close>

definition Get :: "bucket \<Rightarrow> bytes \<Rightarrow> bytes option" where
  "Get b key = map_of b key"

text \<open>The length of a byte slice that may be \<^verbatim>\<open>nil\<close>.\<close>

fun len :: "bytes option \<Rightarrow> nat" where
  "len None = 0"
| "len (Some v) = length v"

text \<open>
  Insertion at the position the key order gives: before the first entry with a greater
  key, or in place of the entry with the same key.
\<close>

fun node_put :: "bytes \<Rightarrow> bytes \<Rightarrow> bucket \<Rightarrow> bucket" where
  "node_put key val [] = [(key, val)]"
| "node_put key val ((k, v) # es) =
     (if key < k then (key, val) # (k, v) # es
      else if key = k then (key, val) # es
      else (k, v) # node_put key val es)"

definition node_del :: "bytes \<Rightarrow> bucket \<Rightarrow> bucket" where
  "node_del key es = filter (\<lambda>e. fst e \<noteq> key) es"

text \<open>
  \<^verbatim>\<open>Bucket.Put\<close> refuses an empty key, a key longer than \<^verbatim>\<open>MaxKeySize\<close> and a value
  longer than \<^verbatim>\<open>MaxValueSize\<close>; otherwise it stores the value, replacing what the key
  held. \<^verbatim>\<open>Bucket.Delete\<close> removes the key's entry and succeeds when there is none.
\<close>

definition Put :: "bucket \<Rightarrow> bytes \<Rightarrow> bytes \<Rightarrow> error + bucket" where
  "Put b key val =
     (if length key = 0 then Inl ErrKeyRequired
      else if MaxKeySize < length key then Inl ErrKeyTooLarge
      else if MaxValueSize < length val then Inl ErrValueTooLarge
      else Inr (node_put key val b))"

definition Delete :: "bucket \<Rightarrow> bytes \<Rightarrow> error + bucket" where
  "Delete b key = Inr (node_del key b)"

text \<open>\<^verbatim>\<open>Bucket.ForEach\<close> calls the function on every entry, in key order.\<close>

definition ForEach :: "bucket \<Rightarrow> (bytes \<Rightarrow> bytes \<Rightarrow> 'a \<Rightarrow> 'a) \<Rightarrow> 'a \<Rightarrow> 'a" where
  "ForEach b fn acc = fold (\<lambda>(k, v). fn k v) b acc"

text \<open>\<^verbatim>\<open>tx.CreateBucketIfNotExists\<close>: the bucket as it is, or a new empty one.\<close>

definition CreateBucketIfNotExists :: "db \<Rightarrow> bucket" where
  "CreateBucketIfNotExists d = (case d of None \<Rightarrow> [] | Some b \<Rightarrow> b)"

subsection \<open>Requests and responses\<close>

record pageItem =
  Name :: string
  Config :: string

record listData =
  items :: "pageItem list"
  total :: nat

datatype message = Text string | Error error

record basicResp =
  Status :: int
  Msg :: message
  Data :: "listData option"

text \<open>
  What a handler writes: \<^verbatim>\<open>c.AbortWithStatusJSON\<close>, \<^verbatim>\<open>c.JSON\<close>, \<^verbatim>\<open>c.Data\<close> (status,
  content type, body), or nothing because a method of a \<^verbatim>\<open>nil\<close> bucket panicked.
\<close>

datatype response =
    RespAbortJSON nat basicResp
  | RespJSON nat basicResp
  | RespData nat string bytes
  | PanicNilBucket

definition StatusOK :: nat where
  "StatusOK = 200"

text \<open>\<^verbatim>\<open>c.Data\<close> writes the bytes of the slice; a \<^verbatim>\<open>nil\<close> slice has none.\<close>

fun c_Data :: "nat \<Rightarrow> string \<Rightarrow> bytes option \<Rightarrow> response" where
  "c_Data code contentType None = RespData code contentType []"
| "c_Data code contentType (Some data) = RespData code contentType data"

definition page404Data :: bytes where
  \<open>page404Data =
     ''{"type":"page","title":"404","body":[{"type":"markdown","value":"# '' @
     [CHR 0xF0, CHR 0x9F, CHR 0x9A, CHR 0xAB] @
     '' Oops,  '' @
     [CHR 0xE6, CHR 0x89, CHR 0xBE, CHR 0xE4, CHR 0xB8, CHR 0x8D, CHR 0xE5, CHR 0x88, CHR 0xB0,
      CHR 0xE5, CHR 0xAF, CHR 0xB9, CHR 0xE5, CHR 0xBA, CHR 0x94, CHR 0xE7, CHR 0x9A, CHR 0x84,
      CHR 0xE9, CHR 0xA1, CHR 0xB5, CHR 0xE9, CHR 0x9D, CHR 0xA2, CHR 0xE9, CHR 0x85, CHR 0x8D,
      CHR 0xE7, CHR 0xBD, CHR 0xAE, CHR 0x5C] @
     ''n['' @
     [CHR 0xF0, CHR 0x9F, CHR 0x91, CHR 0x89] @
     '' '' @
     [CHR 0xE7, CHR 0x82, CHR 0xB9, CHR 0xE5, CHR 0x87, CHR 0xBB, CHR 0xE6, CHR 0x88, CHR 0x91,
      CHR 0xE8, CHR 0xBF, CHR 0x94, CHR 0xE5, CHR 0x9B, CHR 0x9E, CHR 0xE9, CHR 0xA1, CHR 0xB5,
      CHR 0xE9, CHR 0x9D, CHR 0xA2, CHR 0xE5, CHR 0x88, CHR 0x97, CHR 0xE8, CHR 0xA1, CHR 0xA8] @
     ''](/)"}],"regions":["body"]}''\<close>

subsection \<open>Binding a request body\<close>

text \<open>
  \<^verbatim>\<open>c.ShouldBindJSON\<close> decodes the body into a \<^verbatim>\<open>pageItem\<close> and then runs gin's
  struct validator on it. A body that does not decode is \<open>None\<close> here; a field the body
  leaves out is the empty string.

  The validator applies to each field the rules written in the field's struct tag
  under the validator's tag name. gin sets that tag name to \<^verbatim>\<open>binding\<close>. The fields of
  \<^verbatim>\<open>pageItem\<close> carry their rules under the key \<^verbatim>\<open>validate\<close>:
  \<^verbatim>\<open>validate:"required"\<close> on \<^verbatim>\<open>Name\<close>, \<^verbatim>\<open>validate:"required,json"\<close> on
  \<^verbatim>\<open>Config\<close>. The rule \<^verbatim>\<open>json\<close> asks the JSON library whether the string is a JSON
  text; that test is a parameter of the model.
\<close>

datatype rule = Required | Json

type_synonym structTag = "(string \<times> rule list) list"

definition pageItem_Name_tag :: structTag where
  "pageItem_Name_tag = [(''validate'', [Required])]"

definition pageItem_Config_tag :: structTag where
  "pageItem_Config_tag = [(''validate'', [Required, Json])]"

definition ginTagName :: string where
  "ginTagName = ''binding''"

fun check_rule :: "(string \<Rightarrow> bool) \<Rightarrow> rule \<Rightarrow> string \<Rightarrow> bool" where
  "check_rule jsonValid Required v = (v \<noteq> [])"
| "check_rule jsonValid Json v = jsonValid v"

definition fieldRules :: "string \<Rightarrow> structTag \<Rightarrow> rule list" where
  "fieldRules tagName tag = (case map_of tag tagName of None \<Rightarrow> [] | Some rs \<Rightarrow> rs)"

definition ValidateStruct :: "(string \<Rightarrow> bool) \<Rightarrow> string \<Rightarrow> pageItem \<Rightarrow> bool" where
  "ValidateStruct jsonValid tagName obj \<longleftrightarrow>
     list_all (\<lambda>r. check_rule jsonValid r (Name obj)) (fieldRules tagName pageItem_Name_tag) \<and>
     list_all (\<lambda>r. check_rule jsonValid r (Config obj)) (fieldRules tagName pageItem_Config_tag)"

definition ShouldBindJSON :: "(string \<Rightarrow> bool) \<Rightarrow> pageItem option \<Rightarrow> error + pageItem" where
  "ShouldBindJSON jsonValid body =
     (case body of
        None \<Rightarrow> Inl DecodeError
      | Some obj \<Rightarrow>
          if ValidateStruct jsonValid ginTagName obj then Inr obj else Inl ValidationErrors)"

subsection \<open>The handlers\<close>

definition failed :: "message \<Rightarrow> response" where
  "failed m = RespAbortJSON StatusOK \<lparr>Status = - 1, Msg = m, Data = None\<rparr>"

definition succeeded :: "string \<Rightarrow> response" where
  "succeeded m = RespJSON StatusOK \<lparr>Status = 0, Msg = Text m, Data = None\<rparr>"

definition listConfig :: "db \<Rightarrow> response" where
  "listConfig d =
     (case d of
        None \<Rightarrow> PanicNilBucket
      | Some bucket \<Rightarrow>
          let pages = ForEach bucket (\<lambda>k v pages. pages @ [\<lparr>Name = k, Config = v\<rparr>]) []
          in RespJSON StatusOK
               \<lparr>Status = 0, Msg = Text [],
                Data = Some \<lparr>items = pages, total = length pages\<rparr>\<rparr>)"

definition getConfig :: "db \<Rightarrow> string \<Rightarrow> response" where
  "getConfig d name =
     (if name = [] then failed (Text ''name is empty'')
      else case d of
        None \<Rightarrow> PanicNilBucket
      | Some bucket \<Rightarrow>
          let pageData = Get bucket name;
              pageData = (if len pageData = 0 then Some page404Data else pageData)
          in c_Data StatusOK ''application/json'' pageData)"

definition deleteConfig :: "db \<Rightarrow> string \<Rightarrow> response \<times> db" where
  "deleteConfig d name =
     (if name = [] then (failed (Text ''name is empty''), d)
      else case d of
        None \<Rightarrow> (PanicNilBucket, d)
      | Some bucket \<Rightarrow>
          (case Delete bucket name of
             Inl err \<Rightarrow> (failed (Error err), d)
           | Inr bucket' \<Rightarrow> (succeeded ''delete page config successfully'', Some bucket')))"

definition saveConfig :: "(string \<Rightarrow> bool) \<Rightarrow> db \<Rightarrow> pageItem option \<Rightarrow> response \<times> db" where
  "saveConfig jsonValid d body =
     (case ShouldBindJSON jsonValid body of
        Inl err \<Rightarrow> (failed (Error err), d)
      | Inr req \<Rightarrow>
          (case d of
             None \<Rightarrow> (PanicNilBucket, d)
           | Some bucket \<Rightarrow>
               (case Put bucket (Name req) (Config req) of
                  Inl err \<Rightarrow> (failed (Error err), d)
                | Inr bucket' \<Rightarrow> (succeeded ''save page config successfully'', Some bucket'))))"

subsection \<open>Loading the embedded pages\<close>

text \<open>
  \<^verbatim>\<open>fs.WalkDir\<close> calls the function on every directory and file under \<^verbatim>\<open>static\<close>, in
  lexical order. The function never asks to stop or to skip, so the walk is the list of
  its calls: the path, whether it is a directory, and what \<^verbatim>\<open>ReadFile\<close> gives for it
  (\<open>None\<close> when the read fails).
\<close>

record walkEntry =
  path :: string
  isDir :: bool
  readFile :: "bytes option"

definition walkFn :: "walkEntry \<Rightarrow> bucket \<Rightarrow> bucket" where
  "walkFn e bucket =
     (if isDir e then bucket
      else
        let filename = snd (Split (path e));
            fileExt = Ext filename
        in if fileExt \<noteq> ''.json'' then bucket
           else
             (case readFile e of
                None \<Rightarrow> bucket
              | Some pageData \<Rightarrow>
                  (case Put bucket (TrimSuffix filename fileExt) pageData of
                     Inl err \<Rightarrow> bucket
                   | Inr bucket' \<Rightarrow> bucket')))"

text \<open>
  \<^verbatim>\<open>initBoltDB\<close>: when the file does not open, the process ends (\<^verbatim>\<open>log.Fatalln\<close>);
  otherwise one batch creates the bucket if it is missing and walks the embedded files.
\<close>

definition initBoltDB :: "error + db \<Rightarrow> walkEntry list \<Rightarrow> error + db" where
  "initBoltDB opened static =
     (case opened of
        Inl err \<Rightarrow> Inl err
      | Inr d \<Rightarrow> Inr (Some (fold walkFn static (CreateBucketIfNotExists d))))"

subsection \<open>Notions the properties are stated with\<close>

text \<open>
  The seed pair of a walked entry: the name and the document that \<^const>\<open>walkFn\<close> hands
  to \<^const>\<open>Put\<close> for it, if it gets that far. \<open>seeds\<close> lists the pairs in walk order.
\<close>

definition seedPair :: "walkEntry \<Rightarrow> (string \<times> bytes) option" where
  "seedPair e =
     (if isDir e then None
      else
        let filename = snd (Split (path e))
        in if Ext filename \<noteq> ''.json'' then None
           else map_option (\<lambda>pageData. (TrimSuffix filename (Ext filename), pageData)) (readFile e))"

definition seeds :: "walkEntry list \<Rightarrow> (string \<times> bytes) list" where
  "seeds static = List.map_filter seedPair static"

text \<open>A key and a value that \<^const>\<open>Put\<close> accepts.\<close>

definition storable :: "bytes \<Rightarrow> bytes \<Rightarrow> bool" where
  "storable key val \<longleftrightarrow> key \<noteq> [] \<and> length key \<le> MaxKeySize \<and> length val \<le> MaxValueSize"

text \<open>
  What the bucket's operations keep true of the sequence of entries: the keys ascend
  strictly (so there is one entry per key), and no key is empty.
\<close>

definition bucket_inv :: "bucket \<Rightarrow> bool" where
  "bucket_inv b \<longleftrightarrow> sorted_wrt (<) (map fst b) \<and> [] \<notin> fst ` set b"

fun db_inv :: "db \<Rightarrow> bool" where
  "db_inv None = True"
| "db_inv (Some b) = bucket_inv b"


text \<open>
  A JSON test for the closed examples: it accepts a few JSON texts and nothing else, and
  so agrees with the JSON library on every document the examples use.
\<close>

definition sampleJSON :: "string \<Rightarrow> bool" where
  "sampleJSON s \<longleftrightarrow> s \<in> set [''{}'', ''[]'', ''null'', ''1'']"

section \<open>Properties of the engine model\<close>

lemma Get_node_put: "Get (node_put key val b) k = (if k = key then Some val else Get b k)"
  by (induction b) (auto simp: Get_def)

lemma Get_node_del: "Get (node_del key b) k = (if k = key then None else Get b k)"
  by (induction b) (auto simp: Get_def node_del_def)

lemma node_del_absent: "Get b key = None \<Longrightarrow> node_del key b = b"
  by (induction b) (auto simp: Get_def node_del_def split: if_splits)

lemma node_del_twice: "node_del key (node_del key b) = node_del key b"
  by (simp add: node_del_def)

lemma Put_storable: "storable key val \<Longrightarrow> Put b key val = Inr (node_put key val b)"
  by (simp add: Put_def storable_def)

lemma Put_not_storable: "\<not> storable key val \<Longrightarrow> \<exists>err. Put b key val = Inl err"
  by (auto simp: Put_def storable_def)

lemma Put_Inr_iff: "Put b key val = Inr b' \<longleftrightarrow> storable key val \<and> b' = node_put key val b"
  by (auto simp: Put_def storable_def)

lemma fieldRules_binding:
  "fieldRules ginTagName pageItem_Name_tag = []" "fieldRules ginTagName pageItem_Config_tag = []"
  by (simp_all add: fieldRules_def ginTagName_def pageItem_Name_tag_def pageItem_Config_tag_def)

lemma ValidateStruct_binding: "ValidateStruct jsonValid ginTagName obj"
  by (simp add: ValidateStruct_def fieldRules_binding)

lemma ShouldBindJSON_decodes:
  "ShouldBindJSON jsonValid body = (case body of None \<Rightarrow> Inl DecodeError | Some obj \<Rightarrow> Inr obj)"
  by (simp add: ShouldBindJSON_def ValidateStruct_binding split: option.splits)

lemma ValidateStruct_validate:
  "ValidateStruct jsonValid ''validate'' obj \<longleftrightarrow>
     Name obj \<noteq> [] \<and> Config obj \<noteq> [] \<and> jsonValid (Config obj)"
  by (simp add: ValidateStruct_def fieldRules_def pageItem_Name_tag_def pageItem_Config_tag_def)

lemma saveConfig_Some:
  "saveConfig jsonValid (Some b) (Some req) =
     (case Put b (Name req) (Config req) of
        Inl err \<Rightarrow> (failed (Error err), Some b)
      | Inr b' \<Rightarrow> (succeeded ''save page config successfully'', Some b'))"
  by (simp add: saveConfig_def ShouldBindJSON_decodes)

lemma page404Data_nonempty: "page404Data \<noteq> []"
  by (simp add: page404Data_def)

lemma getConfig_Some:
  "name \<noteq> [] \<Longrightarrow> getConfig (Some b) name =
     RespData StatusOK ''application/json''
       (case Get b name of None \<Rightarrow> page404Data | Some v \<Rightarrow> if v = [] then page404Data else v)"
  by (simp add: getConfig_def Let_def split: option.splits)

section \<open>Properties of the path functions\<close>

lemma ext_loop_suffix:
  "ext_loop cs rest \<noteq> [] \<Longrightarrow> \<exists>stem. rev cs @ rest = stem @ ext_loop cs rest"
proof (induction cs rest rule: ext_loop.induct)
  case (1 rest)
  then show ?case by simp
next
  case (2 c cs rest)
  show ?case
  proof (cases "c = CHR ''/''")
    case True
    with 2(2) show ?thesis by simp
  next
    case sep: False
    show ?thesis
    proof (cases "c = CHR ''.''")
      case True
      with sep have "rev (c # cs) @ rest = rev cs @ ext_loop (c # cs) rest" by simp
      then show ?thesis ..
    next
      case False
      with sep 2(2) have ne: "ext_loop cs (c # rest) \<noteq> []" by simp
      from 2(1)[OF sep False ne] obtain stem where
        "rev cs @ c # rest = stem @ ext_loop cs (c # rest)" ..
      with sep False have "rev (c # cs) @ rest = stem @ ext_loop (c # cs) rest" by simp
      then show ?thesis ..
    qed
  qed
qed

lemma Ext_suffix: "Ext f \<noteq> [] \<Longrightarrow> \<exists>stem. f = stem @ Ext f"
  using ext_loop_suffix[of "rev f" "[]"] by (simp add: Ext_def)

lemma Ext_json_iff: "Ext f = ''.json'' \<longleftrightarrow> (\<exists>stem. f = stem @ ''.json'')"
proof
  assume e: "Ext f = ''.json''"
  then have "Ext f \<noteq> []" by simp
  from Ext_suffix[OF this] e show "\<exists>stem. f = stem @ ''.json''" by simp
next
  assume "\<exists>stem. f = stem @ ''.json''"
  then obtain stem where "f = stem @ ''.json''" ..
  then show "Ext f = ''.json''" by (simp add: Ext_def)
qed

lemma HasSuffix_iff: "HasSuffix s suf \<longleftrightarrow> (\<exists>stem. s = stem @ suf)"
proof
  assume "HasSuffix s suf"
  then have "s = take (length s - length suf) s @ suf"
    by (metis HasSuffix_def append_take_drop_id)
  then show "\<exists>stem. s = stem @ suf" ..
next
  assume "\<exists>stem. s = stem @ suf"
  then show "HasSuffix s suf" by (auto simp: HasSuffix_def)
qed

lemma TrimSuffix_append: "TrimSuffix (stem @ suf) suf = stem"
  by (simp add: TrimSuffix_def HasSuffix_def)

lemma deleteConfig_Some:
  "n \<noteq> [] \<Longrightarrow> deleteConfig (Some b) n =
     (succeeded ''delete page config successfully'', Some (node_del n b))"
  by (simp add: deleteConfig_def Delete_def)

lemma saveConfig_undecodable: "saveConfig jsonValid d None = (failed (Error DecodeError), d)"
  by (simp add: saveConfig_def ShouldBindJSON_decodes)

lemma saveConfig_empty_name:
  "Name req = [] \<Longrightarrow>
   saveConfig jsonValid (Some b) (Some req) = (failed (Error ErrKeyRequired), Some b)"
  by (simp add: saveConfig_Some Put_def)

section \<open>Properties of the key order\<close>

lemma keys_node_put: "fst ` set (node_put key val b) = insert key (fst ` set b)"
  by (induction key val b rule: node_put.induct) auto

lemma sorted_node_put:
  "sorted_wrt (<) (map fst b) \<Longrightarrow> sorted_wrt (<) (map fst (node_put key val b))"
proof (induction b)
  case Nil
  then show ?case by simp
next
  case (Cons e b)
  obtain k v where e: "e = (k, v)" by (cases e)
  from Cons.prems e have tl: "sorted_wrt (<) (map fst b)" and hd: "\<forall>x \<in> fst ` set b. k < x"
    by auto
  show ?case
  proof (cases "key < k")
    case True
    with Cons.prems e hd show ?thesis by (auto intro: less_trans)
  next
    case notless: False
    show ?thesis
    proof (cases "key = k")
      case True
      with Cons.prems e show ?thesis by simp
    next
      case False
      with notless have "k < key" by simp
      with Cons.IH[OF tl] hd e notless False show ?thesis
        by (simp add: keys_node_put[simplified] image_iff)
    qed
  qed
qed





lemma ForEach_pages:
  "ForEach b (\<lambda>k v pages. pages @ [\<lparr>Name = k, Config = v\<rparr>]) acc =
     acc @ map (\<lambda>(k, v). \<lparr>Name = k, Config = v\<rparr>) b"
  by (induction b arbitrary: acc) (auto simp: ForEach_def)

section \<open>Properties of the walk function\<close>

lemma walkFn_seedPair:
  "walkFn e b =
     (case seedPair e of
        None \<Rightarrow> b
      | Some (n, A) \<Rightarrow> (case Put b n A of Inl err \<Rightarrow> b | Inr b' \<Rightarrow> b'))"
  by (simp add: walkFn_def seedPair_def Let_def split: option.splits)

lemma walkFn_read_failure: "readFile e = None \<Longrightarrow> walkFn e b = b"
  by (simp add: walkFn_def Let_def)

lemma walkFn_no_suffix: "\<not> HasSuffix (snd (Split (path e))) ''.json'' \<Longrightarrow> walkFn e b = b"
  by (simp add: walkFn_def Let_def Ext_json_iff HasSuffix_iff)

lemma walkFn_json_file:
  "\<not> isDir e \<Longrightarrow> snd (Split (path e)) = stem @ ''.json'' \<Longrightarrow> readFile e = Some pageData \<Longrightarrow>
   walkFn e b = (case Put b stem pageData of Inl err \<Rightarrow> b | Inr b' \<Rightarrow> b')"
proof -
  assume a: "\<not> isDir e" "snd (Split (path e)) = stem @ ''.json''" "readFile e = Some pageData"
  have "Ext (stem @ ''.json'') = ''.json''"
    using Ext_json_iff by blast
  with a show ?thesis
    by (simp add: walkFn_def Let_def TrimSuffix_append)
qed

lemma fold_walkFn_filter:
  "fold walkFn (filter (\<lambda>e. HasSuffix (snd (Split (path e))) ''.json'') static) b =
   fold walkFn static b"
  by (induction static arbitrary: b) (simp_all add: walkFn_no_suffix)

lemma Get_walkFn_other:
  "\<forall>A. seedPair e \<noteq> Some (k, A) \<Longrightarrow> Get (walkFn e b) k = Get b k"
  by (auto simp: walkFn_seedPair Put_def Get_node_put split: option.splits sum.splits)

lemma Get_walkFn_seed:
  "seedPair e = Some (n, A) \<Longrightarrow> storable n A \<Longrightarrow> Get (walkFn e b) n = Some A"
  by (simp add: walkFn_seedPair Put_storable Get_node_put)

lemma seeds_snoc:
  "seeds (static @ [e]) = seeds static @ (case seedPair e of None \<Rightarrow> [] | Some p \<Rightarrow> [p])"
  by (simp add: seeds_def map_filter_def split: option.splits)

lemma seeds_Cons:
  "seeds (e # static) = (case seedPair e of None \<Rightarrow> [] | Some p \<Rightarrow> [p]) @ seeds static"
  by (simp add: seeds_def map_filter_def split: option.splits)

lemma Get_seeded_last:
  "map_of (rev (seeds static)) n = Some A \<Longrightarrow> storable n A \<Longrightarrow>
   Get (fold walkFn static b) n = Some A"
proof (induction static rule: rev_induct)
  case Nil
  then show ?case by (simp add: seeds_def map_filter_def)
next
  case (snoc e static)
  show ?case
  proof (cases "seedPair e")
    case None
    with snoc show ?thesis by (simp add: seeds_snoc walkFn_seedPair)
  next
    case (Some p)
    obtain n' A' where p: "p = (n', A')" by (cases p)
    show ?thesis
    proof (cases "n' = n")
      case True
      with snoc.prems(1) Some p have "A' = A" by (simp add: seeds_snoc)
      with True Some p snoc.prems(2) show ?thesis by (simp add: Get_walkFn_seed)
    next
      case False
      with snoc.prems(1) Some p have "map_of (rev (seeds static)) n = Some A"
        by (simp add: seeds_snoc)
      from snoc.IH[OF this snoc.prems(2)] have "Get (fold walkFn static b) n = Some A" .
      moreover from False Some p have "\<forall>A. seedPair e \<noteq> Some (n, A)" by simp
      ultimately show ?thesis by (simp add: Get_walkFn_other)
    qed
  qed
qed

lemma Get_seeded_other:
  "m \<notin> fst ` set (seeds static) \<Longrightarrow> Get (fold walkFn static b) m = Get b m"
proof (induction static arbitrary: b)
  case Nil
  then show ?case by simp
next
  case (Cons e static)
  from Cons.prems have 1: "\<forall>A. seedPair e \<noteq> Some (m, A)"
    by (auto simp: seeds_Cons split: option.splits)
  from Cons.prems have 2: "m \<notin> fst ` set (seeds static)"
    by (auto simp: seeds_Cons split: option.splits)
  show ?case by (simp add: Cons.IH[OF 2] Get_walkFn_other[OF 1])
qed

section \<open>The invariant of the bucket\<close>

text \<open>
  The empty bucket has the invariant and every operation of the program keeps it, so every
  state the program reaches has it. On such a bucket \<^const>\<open>node_del\<close> takes out the one
  entry of the key, and \<^const>\<open>listConfig\<close> lists the entries by ascending name.
\<close>

lemma bucket_inv_empty: "bucket_inv []"
  by (simp add: bucket_inv_def)

lemma bucket_inv_node_put: "bucket_inv b \<Longrightarrow> key \<noteq> [] \<Longrightarrow> bucket_inv (node_put key val b)"
  by (simp add: bucket_inv_def sorted_node_put keys_node_put)

lemma sorted_node_del:
  "sorted_wrt (<) (map fst b) \<Longrightarrow> sorted_wrt (<) (map fst (node_del key b))"
  by (induction b) (auto simp: node_del_def)

lemma bucket_inv_node_del: "bucket_inv b \<Longrightarrow> bucket_inv (node_del key b)"
proof -
  assume inv: "bucket_inv b"
  have "set (node_del key b) \<subseteq> set b" by (auto simp: node_del_def)
  then have "fst ` set (node_del key b) \<subseteq> fst ` set b" by blast
  with inv show ?thesis by (auto simp: bucket_inv_def sorted_node_del)
qed

lemma bucket_inv_Put: "bucket_inv b \<Longrightarrow> Put b key val = Inr b' \<Longrightarrow> bucket_inv b'"
  by (auto simp: Put_Inr_iff storable_def bucket_inv_node_put)

lemma bucket_inv_walkFn: "bucket_inv b \<Longrightarrow> bucket_inv (walkFn e b)"
  by (auto simp: walkFn_seedPair bucket_inv_Put split: option.splits sum.splits)

lemma bucket_inv_fold_walkFn: "bucket_inv b \<Longrightarrow> bucket_inv (fold walkFn static b)"
  by (induction static arbitrary: b) (simp_all add: bucket_inv_walkFn)

lemma initBoltDB_inv:
  "db_inv d \<Longrightarrow> \<exists>b'. initBoltDB (Inr d) static = Inr (Some b') \<and> bucket_inv b'"
  by (cases d)
    (simp_all add: initBoltDB_def CreateBucketIfNotExists_def bucket_inv_fold_walkFn
      bucket_inv_empty)

lemma saveConfig_inv: "db_inv d \<Longrightarrow> db_inv (snd (saveConfig jsonValid d body))"
  by (cases d; cases body)
    (auto simp: saveConfig_def ShouldBindJSON_decodes bucket_inv_Put split: sum.splits)

lemma deleteConfig_inv: "db_inv d \<Longrightarrow> db_inv (snd (deleteConfig d name))"
  by (cases d) (auto simp: deleteConfig_def Delete_def bucket_inv_node_del)

lemma node_del_single:
  "bucket_inv b \<Longrightarrow> Get b key = Some val \<Longrightarrow>
   \<exists>before after. b = before @ (key, val) # after \<and> node_del key b = before @ after"
proof (induction b)
  case Nil
  then show ?case by (simp add: Get_def)
next
  case (Cons e b)
  obtain k v where e: "e = (k, v)" by (cases e)
  from Cons.prems(1) e have inv: "bucket_inv b" and gt: "\<forall>x \<in> set b. k < fst x"
    by (auto simp: bucket_inv_def)
  show ?case
  proof (cases "k = key")
    case True
    with gt have "\<forall>x \<in> set b. fst x \<noteq> key" by auto
    then have "node_del key b = b" by (auto simp: node_del_def filter_id_conv)
    moreover from True Cons.prems(2) e have "v = val" by (simp add: Get_def)
    ultimately have "e # b = [] @ (key, val) # b \<and> node_del key (e # b) = [] @ b"
      using True e by (simp add: node_del_def)
    then show ?thesis by blast
  next
    case False
    with Cons.prems(2) e have "Get b key = Some val" by (simp add: Get_def)
    from Cons.IH[OF inv this] obtain before after where
      "b = before @ (key, val) # after" "node_del key b = before @ after" by blast
    with False e have "e # b = (e # before) @ (key, val) # after \<and>
        node_del key (e # b) = (e # before) @ after"
      by (simp add: node_del_def)
    then show ?thesis by blast
  qed
qed

lemma listConfig_sorted:
  "bucket_inv b \<Longrightarrow>
   \<exists>pages. listConfig (Some b) =
       RespJSON StatusOK
         \<lparr>Status = 0, Msg = Text [], Data = Some \<lparr>items = pages, total = length b\<rparr>\<rparr> \<and>
     map (\<lambda>p. (Name p, Config p)) pages = b \<and> sorted_wrt (<) (map Name pages)"
proof -
  assume inv: "bucket_inv b"
  let ?pages = "map (\<lambda>(k, v). \<lparr>Name = k, Config = v\<rparr>) b"
  have 1: "listConfig (Some b) =
      RespJSON StatusOK
        \<lparr>Status = 0, Msg = Text [], Data = Some \<lparr>items = ?pages, total = length b\<rparr>\<rparr>"
    by (simp add: listConfig_def ForEach_pages)
  have 2: "map (\<lambda>p. (Name p, Config p)) ?pages = b"
    by (induction b) auto
  have names: "map Name ?pages = map fst b" by (induction b) auto
  from inv have "sorted_wrt (<) (map fst b)" by (simp add: bucket_inv_def)
  then have 3: "sorted_wrt (<) (map Name ?pages)" unfolding names .
  from 1 2 3 show ?thesis by blast
qed

section \<open>Saving and reading back\<close>

text \<open>
  C1 (as amended). Round trip: for every non-empty name of at most \<^const>\<open>MaxKeySize\<close> bytes
  and every non-empty document of at most \<^const>\<open>MaxValueSize\<close> bytes that is a valid JSON
  text, whatever the bucket holds, \<^const>\<open>saveConfig\<close> succeeds and \<^const>\<open>getConfig\<close> of
  that name then answers exactly the bytes of the document.
\<close>

theorem save_get_roundtrip:
  "Name req \<noteq> [] \<Longrightarrow> length (Name req) \<le> MaxKeySize \<Longrightarrow>
   Config req \<noteq> [] \<Longrightarrow> jsonValid (Config req) \<Longrightarrow> length (Config req) \<le> MaxValueSize \<Longrightarrow>
   fst (saveConfig jsonValid (Some b) (Some req)) = succeeded ''save page config successfully'' \<and>
   getConfig (snd (saveConfig jsonValid (Some b) (Some req))) (Name req) =
     RespData StatusOK ''application/json'' (Config req)"
  by (simp add: saveConfig_Some Put_storable storable_def getConfig_Some Get_node_put)

theorem save_get_roundtrip_witness:
  "sampleJSON ''{}'' \<and>
   fst (saveConfig sampleJSON (Some [(''index'', ''null'')])
          (Some \<lparr>Name = ''home'', Config = ''{}''\<rparr>)) =
     succeeded ''save page config successfully'' \<and>
   getConfig (snd (saveConfig sampleJSON (Some [(''index'', ''null'')])
          (Some \<lparr>Name = ''home'', Config = ''{}''\<rparr>))) ''home'' =
     RespData StatusOK ''application/json'' ''{}''"
proof -
  have v: "sampleJSON ''{}''" by (simp add: sampleJSON_def)
  from save_get_roundtrip
    [of "\<lparr>Name = ''home'', Config = ''{}''\<rparr>" sampleJSON "[(''index'', ''null'')]"] v
  show ?thesis by (simp add: MaxKeySize_def MaxValueSize_def)
qed

text \<open>
  C1 as written fails for a name the bucket refuses: a name of 32769 bytes is not empty
  and \<^verbatim>\<open>{}\<close> is a non-empty JSON text, yet the save is answered with
  \<^const>\<open>ErrKeyTooLarge\<close> and the read gives the fallback document.
\<close>

theorem save_get_roundtrip_counterexample:
  "replicate 32769 (CHR ''a'') \<noteq> [] \<and> sampleJSON ''{}'' \<and>
   fst (saveConfig sampleJSON (Some [])
          (Some \<lparr>Name = replicate 32769 (CHR ''a''), Config = ''{}''\<rparr>)) =
     failed (Error ErrKeyTooLarge) \<and>
   getConfig (snd (saveConfig sampleJSON (Some [])
          (Some \<lparr>Name = replicate 32769 (CHR ''a''), Config = ''{}''\<rparr>)))
       (replicate 32769 (CHR ''a'')) \<noteq>
     RespData StatusOK ''application/json'' ''{}''"
  by (simp add: saveConfig_Some Put_def MaxKeySize_def sampleJSON_def getConfig_def Get_def
      page404Data_def)

section \<open>Reading a name that is not stored\<close>

text \<open>
  C2 (as amended). For every non-empty name with no entry in the bucket,
  \<^const>\<open>getConfig\<close> answers the fallback document \<^const>\<open>page404Data\<close>; for the empty
  name it answers the failure envelope \<^verbatim>\<open>name is empty\<close> with status \<open>-1\<close>, whatever
  the store holds.
\<close>

theorem get_fallback:
  "name \<noteq> [] \<Longrightarrow> Get b name = None \<Longrightarrow>
   getConfig (Some b) name = RespData StatusOK ''application/json'' page404Data \<and>
   getConfig d [] = failed (Text ''name is empty'')"
  by (simp add: getConfig_def)

theorem get_fallback_witness:
  "getConfig (Some [(''home'', ''{}'')]) ''nonexistent'' =
     RespData StatusOK ''application/json'' page404Data \<and>
   getConfig None [] = failed (Text ''name is empty'')"
  using get_fallback [of "''nonexistent''" "[(''home'', ''{}'')]" None]
  by (simp add: Get_def)

text \<open>C2 as written fails at the empty name: the answer is not the fallback document.\<close>

theorem get_fallback_counterexample:
  "getConfig (Some []) [] \<noteq> RespData StatusOK ''application/json'' page404Data"
  by (simp add: getConfig_def failed_def)

section \<open>Seeds and what was stored before\<close>

text \<open>
  C3 (as amended). Whatever the bucket held before, after \<^const>\<open>initBoltDB\<close>: for the
  last seed pair \<open>(n, A)\<close> of the name \<open>n\<close> in walk order, if the bucket accepts the pair
  (\<open>n\<close> is not empty and within the key limit, \<open>A\<close> within the value limit) and \<open>A\<close> is
  not empty, \<^const>\<open>getConfig\<close> of \<open>n\<close> answers \<open>A\<close>; and a name that is the name of
  no seed pair holds what it held before.
\<close>

theorem seed_overwrites:
  "\<exists>b'. initBoltDB (Inr (Some b)) static = Inr (Some b') \<and>
     (map_of (rev (seeds static)) n = Some A \<longrightarrow> storable n A \<longrightarrow> A \<noteq> [] \<longrightarrow>
        getConfig (Some b') n = RespData StatusOK ''application/json'' A) \<and>
     (m \<notin> fst ` set (seeds static) \<longrightarrow> Get b' m = Get b m)"
proof -
  let ?b' = "fold walkFn static b"
  have "initBoltDB (Inr (Some b)) static = Inr (Some ?b')"
    by (simp add: initBoltDB_def CreateBucketIfNotExists_def)
  moreover have "getConfig (Some ?b') n = RespData StatusOK ''application/json'' A"
    if "map_of (rev (seeds static)) n = Some A" "storable n A" "A \<noteq> []"
    using that Get_seeded_last[OF that(1,2), of b]
    by (simp add: getConfig_Some storable_def)
  moreover have "Get ?b' m = Get b m" if "m \<notin> fst ` set (seeds static)"
    using that by (rule Get_seeded_other)
  ultimately show ?thesis by blast
qed

theorem seed_overwrites_witness:
  "\<exists>b'. initBoltDB (Inr (Some [(''home'', ''[0]''), (''mine'', ''[9]'')]))
       [\<lparr>path = ''static'', isDir = True, readFile = None\<rparr>,
        \<lparr>path = ''static/a'', isDir = True, readFile = None\<rparr>,
        \<lparr>path = ''static/a/home.json'', isDir = False, readFile = Some ''[1]''\<rparr>,
        \<lparr>path = ''static/home.json'', isDir = False, readFile = Some ''[2]''\<rparr>] = Inr (Some b') \<and>
     getConfig (Some b') ''home'' = RespData StatusOK ''application/json'' ''[2]'' \<and>
     Get b' ''mine'' = Get [(''home'', ''[0]''), (''mine'', ''[9]'')] ''mine''"
proof -
  let ?static = "[\<lparr>path = ''static'', isDir = True, readFile = None\<rparr>,
        \<lparr>path = ''static/a'', isDir = True, readFile = None\<rparr>,
        \<lparr>path = ''static/a/home.json'', isDir = False, readFile = Some ''[1]''\<rparr>,
        \<lparr>path = ''static/home.json'', isDir = False, readFile = Some ''[2]''\<rparr>]"
  have s: "seeds ?static = [(''home'', ''[1]''), (''home'', ''[2]'')]"
    by (simp add: seeds_def map_filter_def seedPair_def Split_def Ext_def TrimSuffix_def
        HasSuffix_def)
  have 1: "map_of (rev (seeds ?static)) ''home'' = Some ''[2]''" by (simp add: s)
  have 2: "storable ''home'' ''[2]''" by (simp add: storable_def MaxKeySize_def MaxValueSize_def)
  have 3: "''[2]'' \<noteq> []" by simp
  have 4: "''mine'' \<notin> fst ` set (seeds ?static)" by (simp add: s)
  from seed_overwrites
    [of "[(''home'', ''[0]''), (''mine'', ''[9]'')]" ?static "''home''" "''[2]''" "''mine''"]
    1 2 3 4
  show ?thesis by blast
qed

text \<open>
  C3 as written fails for a seed pair that a later seed of the same name replaces (the
  directory of a file is not part of the name), and for a seed whose document is empty.
\<close>

theorem seed_overwrites_counterexample:
  "seedPair \<lparr>path = ''static/a/home.json'', isDir = False, readFile = Some ''[1]''\<rparr> =
     Some (''home'', ''[1]'') \<and>
   initBoltDB (Inr (Some [(''home'', ''[0]'')]))
     [\<lparr>path = ''static'', isDir = True, readFile = None\<rparr>,
      \<lparr>path = ''static/a'', isDir = True, readFile = None\<rparr>,
      \<lparr>path = ''static/a/home.json'', isDir = False, readFile = Some ''[1]''\<rparr>,
      \<lparr>path = ''static/home.json'', isDir = False, readFile = Some ''[2]''\<rparr>] =
     Inr (Some [(''home'', ''[2]'')]) \<and>
   getConfig (Some [(''home'', ''[2]'')]) ''home'' \<noteq>
     RespData StatusOK ''application/json'' ''[1]'' \<and>
   seedPair \<lparr>path = ''static/home.json'', isDir = False, readFile = Some []\<rparr> =
     Some (''home'', []) \<and>
   initBoltDB (Inr (Some [(''home'', ''[0]'')]))
     [\<lparr>path = ''static'', isDir = True, readFile = None\<rparr>,
      \<lparr>path = ''static/home.json'', isDir = False, readFile = Some []\<rparr>] =
     Inr (Some [(''home'', [])]) \<and>
   getConfig (Some [(''home'', [])]) ''home'' \<noteq> RespData StatusOK ''application/json'' []"
  by (simp add: seedPair_def initBoltDB_def CreateBucketIfNotExists_def walkFn_def Split_def
      Ext_def TrimSuffix_def HasSuffix_def Put_def MaxKeySize_def MaxValueSize_def
      getConfig_def Get_def page404Data_def)

section \<open>What a save rejects\<close>

text \<open>
  C4 at two requests it says are rejected. Whatever the JSON test, a save of the name
  \<^verbatim>\<open>x\<close> with the document \<^verbatim>\<open>{not json\<close> succeeds and stores it, and so does a save
  with the empty document.
\<close>

theorem save_skips_validation:
  "saveConfig jsonValid (Some []) (Some \<lparr>Name = ''x'', Config = ''{not json''\<rparr>) =
     (succeeded ''save page config successfully'', Some [(''x'', ''{not json'')]) \<and>
   saveConfig jsonValid (Some []) (Some \<lparr>Name = ''x'', Config = []\<rparr>) =
     (succeeded ''save page config successfully'', Some [(''x'', [])])"
  by (simp add: saveConfig_Some Put_def MaxKeySize_def MaxValueSize_def)

section \<open>Deleting\<close>

text \<open>
  C5. For every non-empty name with no entry, \<^const>\<open>deleteConfig\<close> succeeds and leaves
  the bucket as it was; and from every state, the store after two deletes of a name in a
  row is the store after one.
\<close>

theorem delete_idempotent:
  "n \<noteq> [] \<Longrightarrow> Get b n = None \<Longrightarrow>
   deleteConfig (Some b) n = (succeeded ''delete page config successfully'', Some b) \<and>
   snd (deleteConfig (snd (deleteConfig d n)) n) = snd (deleteConfig d n)"
  by (cases d) (simp_all add: deleteConfig_def Delete_def node_del_absent node_del_twice)

theorem delete_idempotent_witness:
  "deleteConfig (Some [(''home'', ''{}'')]) ''gone'' =
     (succeeded ''delete page config successfully'', Some [(''home'', ''{}'')]) \<and>
   snd (deleteConfig (snd (deleteConfig (Some [(''gone'', ''[1]''), (''home'', ''{}'')]) ''gone''))
       ''gone'') =
     Some [(''home'', ''{}'')] \<and>
   snd (deleteConfig (Some [(''gone'', ''[1]''), (''home'', ''{}'')]) ''gone'') =
     Some [(''home'', ''{}'')]"
  using delete_idempotent
    [of "''gone''" "[(''home'', ''{}'')]" "Some [(''gone'', ''[1]''), (''home'', ''{}'')]"]
  by (simp add: Get_def deleteConfig_def Delete_def node_del_def)

section \<open>Listing\<close>



section \<open>Which embedded files are loaded\<close>

text \<open>
  C7. A walked entry whose file name does not end in \<^verbatim>\<open>.json\<close> leaves the bucket as
  it is, so that loading all entries gives the store that loading only the entries with
  that suffix gives; and a file named \<open>stem\<close> followed by \<^verbatim>\<open>.json\<close> that is read hands
  its bytes to \<^const>\<open>Put\<close> under the key \<open>stem\<close>.
\<close>

theorem seed_ignores_other_suffix:
  "(\<not> HasSuffix (snd (Split (path other))) ''.json'' \<longrightarrow> walkFn other b = b) \<and>
   initBoltDB opened static =
     initBoltDB opened (filter (\<lambda>e. HasSuffix (snd (Split (path e))) ''.json'') static) \<and>
   (\<not> isDir e \<longrightarrow> snd (Split (path e)) = stem @ ''.json'' \<longrightarrow> readFile e = Some pageData \<longrightarrow>
      walkFn e b = (case Put b stem pageData of Inl err \<Rightarrow> b | Inr b' \<Rightarrow> b'))"
  by (simp add: walkFn_no_suffix walkFn_json_file initBoltDB_def fold_walkFn_filter
      split: sum.splits)

theorem seed_ignores_other_suffix_witness:
  "walkFn \<lparr>path = ''static/amis.tmpl'', isDir = False, readFile = Some ''<html>''\<rparr> [] = [] \<and>
   initBoltDB (Inr None)
     [\<lparr>path = ''static'', isDir = True, readFile = None\<rparr>,
      \<lparr>path = ''static/amis.tmpl'', isDir = False, readFile = Some ''<html>''\<rparr>,
      \<lparr>path = ''static/home.json'', isDir = False, readFile = Some ''{}''\<rparr>] =
   initBoltDB (Inr None)
     [\<lparr>path = ''static/home.json'', isDir = False, readFile = Some ''{}''\<rparr>] \<and>
   walkFn \<lparr>path = ''static/home.json'', isDir = False, readFile = Some ''{}''\<rparr> [] =
     [(''home'', ''{}'')]"
  using seed_ignores_other_suffix
    [of "\<lparr>path = ''static/amis.tmpl'', isDir = False, readFile = Some ''<html>''\<rparr>" "[]"
        "Inr None"
        "[\<lparr>path = ''static'', isDir = True, readFile = None\<rparr>,
          \<lparr>path = ''static/amis.tmpl'', isDir = False, readFile = Some ''<html>''\<rparr>,
          \<lparr>path = ''static/home.json'', isDir = False, readFile = Some ''{}''\<rparr>]"
        "\<lparr>path = ''static/home.json'', isDir = False, readFile = Some ''{}''\<rparr>"
        "''home''" "''{}''"]
  by (simp add: Split_def HasSuffix_def Put_def MaxKeySize_def MaxValueSize_def)

section \<open>A seed that cannot be read\<close>

text \<open>
  C8. When the read of one walked entry fails, \<^const>\<open>initBoltDB\<close> gives the store it
  gives for the walk without that entry: the entries before and after it are loaded as
  they would be, and the batch goes on to its end.
\<close>

theorem seed_read_failure_skips_one:
  "readFile e = None \<Longrightarrow>
   initBoltDB opened (before @ e # after) = initBoltDB opened (before @ after)"
  by (simp add: initBoltDB_def walkFn_read_failure split: sum.splits)

theorem seed_read_failure_skips_one_witness:
  "initBoltDB (Inr (Some []))
     ([\<lparr>path = ''static/a.json'', isDir = False, readFile = Some ''[1]''\<rparr>] @
      \<lparr>path = ''static/b.json'', isDir = False, readFile = None\<rparr> #
      [\<lparr>path = ''static/c.json'', isDir = False, readFile = Some ''[3]''\<rparr>]) =
   Inr (Some [(''a'', ''[1]''), (''c'', ''[3]'')])"
  using seed_read_failure_skips_one
    [of "\<lparr>path = ''static/b.json'', isDir = False, readFile = None\<rparr>" "Inr (Some [])"
        "[\<lparr>path = ''static/a.json'', isDir = False, readFile = Some ''[1]''\<rparr>]"
        "[\<lparr>path = ''static/c.json'', isDir = False, readFile = Some ''[3]''\<rparr>]"]
  by (simp add: initBoltDB_def CreateBucketIfNotExists_def walkFn_def Split_def Ext_def
      TrimSuffix_def HasSuffix_def Put_def MaxKeySize_def MaxValueSize_def)

section \<open>An empty stored value\<close>

text \<open>
  C9. For every name whose stored value is the empty byte string, \<^const>\<open>getConfig\<close>
  answers the fallback document, which is not empty, and not the stored bytes: the test
  is on the length of what \<^const>\<open>Get\<close> returned. (A stored name is never empty:
  \<^const>\<open>Put\<close> refuses the empty key.)
\<close>

theorem get_empty_value_is_fallback:
  "name \<noteq> [] \<Longrightarrow> Get b name = Some [] \<Longrightarrow>
   getConfig (Some b) name = RespData StatusOK ''application/json'' page404Data \<and>
   page404Data \<noteq> []"
  by (simp add: getConfig_Some page404Data_nonempty)

theorem get_empty_value_is_fallback_witness:
  "initBoltDB (Inr None) [\<lparr>path = ''static/blank.json'', isDir = False, readFile = Some []\<rparr>] =
     Inr (Some [(''blank'', [])]) \<and>
   getConfig (Some [(''blank'', [])]) ''blank'' =
     RespData StatusOK ''application/json'' page404Data \<and>
   page404Data \<noteq> []"
  using get_empty_value_is_fallback [of "''blank''" "[(''blank'', [])]"]
  by (simp add: Get_def initBoltDB_def CreateBucketIfNotExists_def walkFn_def Split_def Ext_def
      TrimSuffix_def HasSuffix_def Put_def MaxKeySize_def MaxValueSize_def)

section \<open>Other names are not touched\<close>

text \<open>
  C10. A save or a delete of the name \<open>n\<close>, successful or not, changes nothing of what
  \<^const>\<open>getConfig\<close> answers for any other name \<open>m\<close>.
\<close>

theorem save_delete_local:
  "m \<noteq> n \<Longrightarrow>
   getConfig (snd (saveConfig jsonValid d (Some \<lparr>Name = n, Config = c\<rparr>))) m = getConfig d m \<and>
   getConfig (snd (deleteConfig d n)) m = getConfig d m"
  by (cases d)
    (auto simp: saveConfig_def ShouldBindJSON_decodes deleteConfig_def Delete_def Put_def
      getConfig_def Get_node_put Get_node_del)

theorem save_delete_local_witness:
  "getConfig (snd (saveConfig sampleJSON (Some [(''home'', ''{}'')])
       (Some \<lparr>Name = ''index'', Config = ''[]''\<rparr>))) ''home'' =
     getConfig (Some [(''home'', ''{}'')]) ''home'' \<and>
   getConfig (snd (deleteConfig (Some [(''home'', ''{}'')]) ''index'')) ''home'' =
     getConfig (Some [(''home'', ''{}'')]) ''home''"
  using save_delete_local [of "''home''" "''index''" sampleJSON "Some [(''home'', ''{}'')]" "''[]''"]
  by simp

end
